theory Spec2Isabelle
  imports Main
begin

section \<open>The training endpoints of deepaas.api.v2.train\<close>

text \<open>
  The module keeps, per model, a dictionary \<^verbatim>\<open>_trainings\<close> from a uuid to
  \<^verbatim>\<open>{"date": ..., "task": ...}\<close>, where the task is the asyncio future returned by
  \<^verbatim>\<open>model_obj.train\<close>. Four handlers work on it: \<^verbatim>\<open>post\<close> (submit),
  \<^verbatim>\<open>get\<close> (status), \<^verbatim>\<open>index\<close> (list) and \<^verbatim>\<open>delete\<close> (cancel); all of them
  derive a job's status with \<^verbatim>\<open>build_train_response\<close>.

  The handlers are modelled as functions from the handler's state to a result and the
  new state. A raise is the left injection of the result.
\<close>

subsection \<open>Exceptions\<close>

text \<open>
  The handlers do three things with an exception object: they match its class
  (\<^verbatim>\<open>except asyncio.TimeoutError\<close>), test its truth value (\<^verbatim>\<open>if exc\<close>) and format it
  (\<^verbatim>\<open>"%s" % exc\<close>). \<open>OtherError\<close> stands for every class the module does not name
  (\<^verbatim>\<open>ValueError\<close>, \<^verbatim>\<open>AssertionError\<close>, ...).

  \<open>Exn c m\<close> is an exception as the built-in classes make them: true in a boolean
  context, with \<^verbatim>\<open>__str__\<close> returning the text \<open>m\<close>. A class written for a model
  may define \<^verbatim>\<open>__bool__\<close> (or \<^verbatim>\<open>__len__\<close>) and \<^verbatim>\<open>__str__\<close> itself: \<open>Custom c b f\<close>
  is such an exception, whose truth test yields \<open>b\<close> and whose formatting yields \<open>f\<close>;
  either may raise.
\<close>

datatype exn_class = HTTPNotFound | CancelledError | InvalidStateError | TimeoutError | OtherError

datatype exn = Exn exn_class string | Custom exn_class "exn + bool" "exn + string"

primrec cls :: "exn \<Rightarrow> exn_class" where
  "cls (Exn c m) = c"
| "cls (Custom c b f) = c"

primrec truth :: "exn \<Rightarrow> exn + bool" where
  "truth (Exn c m) = Inr True"
| "truth (Custom c b f) = b"

primrec str :: "exn \<Rightarrow> exn + string" where
  "str (Exn c m) = Inr m"
| "str (Custom c b f) = f"

text \<open>
  \<^verbatim>\<open>exception()\<close> returns an exception or \<^verbatim>\<open>None\<close>. \<^verbatim>\<open>None\<close> is false, and
  \<^verbatim>\<open>"%s" % None\<close> is the text \<^verbatim>\<open>None\<close>.
\<close>

primrec truth_value :: "exn option \<Rightarrow> exn + bool" where
  "truth_value None = Inr False"
| "truth_value (Some e) = truth e"

primrec percent_s :: "exn option \<Rightarrow> exn + string" where
  "percent_s None = Inr ''None''"
| "percent_s (Some e) = str e"

subsection \<open>Tasks: the asyncio future behind a training\<close>

text \<open>
  A future is pending (with or without a cancellation request delivered to it) or has
  reached one of its three final outcomes. The queries below are those of
  \<^verbatim>\<open>asyncio.Future\<close>: \<^verbatim>\<open>cancelled()\<close>, \<^verbatim>\<open>done()\<close> (true for a cancelled future
  too), \<^verbatim>\<open>exception()\<close> (which raises \<^verbatim>\<open>CancelledError\<close> on a cancelled future and
  \<^verbatim>\<open>InvalidStateError\<close> on a pending one), \<^verbatim>\<open>result()\<close> (which raises the stored
  exception, or \<^verbatim>\<open>CancelledError\<close>) and \<^verbatim>\<open>cancel()\<close> (a request; it returns
  \<^verbatim>\<open>False\<close> and does nothing on a future that is done). \<open>done_t\<close> is
  \<^verbatim>\<open>done()\<close>.
\<close>

datatype outcome = Finished | Failed exn | Cancelled

datatype task_state = Pending bool | Terminal outcome

primrec cancelled :: "task_state \<Rightarrow> bool" where
  "cancelled (Pending c) = False"
| "cancelled (Terminal oc) = (case oc of Cancelled \<Rightarrow> True | _ \<Rightarrow> False)"

primrec done_t :: "task_state \<Rightarrow> bool" where
  "done_t (Pending c) = False"
| "done_t (Terminal oc) = True"

primrec exception :: "task_state \<Rightarrow> exn + exn option" where
  "exception (Pending c) = Inl (Exn InvalidStateError ''Exception is not set.'')"
| "exception (Terminal oc) =
     (case oc of
        Cancelled \<Rightarrow> Inl (Exn CancelledError [])
      | Failed e \<Rightarrow> Inr (Some e)
      | Finished \<Rightarrow> Inr None)"

primrec result :: "task_state \<Rightarrow> exn + unit" where
  "result (Pending c) = Inl (Exn InvalidStateError ''Result is not ready.'')"
| "result (Terminal oc) =
     (case oc of
        Cancelled \<Rightarrow> Inl (Exn CancelledError [])
      | Failed e \<Rightarrow> Inl e
      | Finished \<Rightarrow> Inr ())"

primrec cancel :: "task_state \<Rightarrow> bool \<times> task_state" where
  "cancel (Pending c) = (True, Pending True)"
| "cancel (Terminal oc) = (False, Terminal oc)"

text \<open>
  \<^verbatim>\<open>await asyncio.wait_for(task, 5)\<close> suspends the handler; what the task does
  meanwhile is not decided by this module, so it is a parameter, the reaction. A task
  that is already done cannot change: \<^verbatim>\<open>wait_for\<close> hands over its result at once,
  whatever the reaction. For a pending task, either \<^verbatim>\<open>wait_for\<close> hands over
  \<^verbatim>\<open>task.result()\<close> of the ended task, raising what that raises (\<open>Settles\<close>), or
  it raises \<^verbatim>\<open>TimeoutError\<close> (\<open>Expires\<close>), having cancelled the task once more.

  What \<^verbatim>\<open>wait_for\<close> does once the five seconds have elapsed depends on the
  interpreter, and the reactions cover each of them. Python 3.6 raises at once and
  leaves the task pending (\<open>Expires None\<close>). Python 3.7 first waits for the cancelled
  task to end, however it ends (\<open>Expires (Some oc)\<close>). From Python 3.8 on it waits
  likewise and raises \<^verbatim>\<open>TimeoutError\<close> only if the task ended cancelled
  (\<open>Expires (Some Cancelled)\<close>); a task that ended otherwise has its result handed
  over, which is \<open>Settles\<close>. A statement that holds for every reaction holds on all
  of them. An interpreter that waits for the cancelled task returns once the task has
  ended; a task that never ends is not among the reactions. Time itself is not
  modelled: the timeout only decides which reaction occurs.
\<close>

datatype reaction = Settles outcome | Expires "outcome option"

definition wait_for :: "reaction \<Rightarrow> task_state \<Rightarrow> nat \<Rightarrow> (exn + unit) \<times> task_state" where
  "wait_for r t timeout =
     (case t of
        Terminal oc \<Rightarrow> (result (Terminal oc), Terminal oc)
      | Pending c \<Rightarrow>
          (case r of
             Settles oc \<Rightarrow> (result (Terminal oc), Terminal oc)
           | Expires None \<Rightarrow> (Inl (Exn TimeoutError []), Pending True)
           | Expires (Some oc) \<Rightarrow> (Inl (Exn TimeoutError []), Terminal oc)))"

subsection \<open>Dictionaries\<close>

text \<open>
  A Python \<^verbatim>\<open>dict\<close> keeps its keys in insertion order; \<^verbatim>\<open>d[k] = v\<close> replaces the
  value of a key that is present, in place, and appends a new key.
\<close>

primrec setitem :: "'k \<Rightarrow> 'v \<Rightarrow> ('k \<times> 'v) list \<Rightarrow> ('k \<times> 'v) list" where
  "setitem k v [] = [(k, v)]"
| "setitem k v (p # ps) = (if fst p = k then (k, v) # ps else p # setitem k v ps)"

type_synonym json_obj = "(string \<times> string) list"

datatype json = JNull | JString string | JObject json_obj | JArray "json list"

primrec to_json :: "json_obj option \<Rightarrow> json" where
  "to_json None = JNull"
| "to_json (Some ret) = JObject ret"

subsection \<open>The handler's state\<close>

text \<open>
  A record of \<^verbatim>\<open>_trainings\<close> holds the date and a reference to the task object.
  Task objects live in a store of their own: \<open>tasks\<close> gives the state of the object
  at each address, \<open>allocated\<close> counts the objects created so far. \<open>log_info\<close> collects
  what \<^verbatim>\<open>LOG.info\<close> was called with.
\<close>

record training =
  date :: string
  task :: nat

record state =
  trainings :: "(string \<times> training) list"
  tasks :: "nat \<Rightarrow> task_state"
  allocated :: nat
  log_info :: "string list"

text \<open>\<^verbatim>\<open>Handler.__init__\<close>: no trainings.\<close>

definition init :: state where
  "init = \<lparr>trainings = [], tasks = (\<lambda>h. Pending False), allocated = 0, log_info = []\<rparr>"

subsection \<open>build_train_response\<close>

text \<open>
  \<^verbatim>\<open>training\<close> is a dictionary with two keys, so \<^verbatim>\<open>not training\<close> holds only for
  \<^verbatim>\<open>None\<close>. \<^verbatim>\<open>if exc\<close> tests the truth value of what \<^verbatim>\<open>exception()\<close> returned,
  and \<^verbatim>\<open>"%s" % exc\<close> formats it; when either raises, so does the function.
\<close>

definition build_train_response :: "string \<Rightarrow> state \<Rightarrow> exn + json_obj option" where
  "build_train_response uuid s =
     (case map_of (trainings s) uuid of
        None \<Rightarrow> Inr None
      | Some training \<Rightarrow>
          (let ret = setitem ''uuid'' uuid (setitem ''date'' (date training) []);
               t = tasks s (task training)
           in if cancelled t then Inr (Some (setitem ''status'' ''cancelled'' ret))
              else if done_t t then
                (case exception t of
                   Inl e \<Rightarrow> Inl e
                 | Inr exc \<Rightarrow>
                     (case truth_value exc of
                        Inl e \<Rightarrow> Inl e
                      | Inr b \<Rightarrow>
                          if b then
                            (case percent_s exc of
                               Inl e \<Rightarrow> Inl e
                             | Inr m \<Rightarrow>
                                 Inr (Some (setitem ''message'' m
                                              (setitem ''status'' ''error'' ret))))
                          else Inr (Some (setitem ''status'' ''done'' ret))))
              else Inr (Some (setitem ''status'' ''running'' ret))))"

subsection \<open>post\<close>

text \<open>
  \<^verbatim>\<open>uuid.uuid4().hex\<close>, \<^verbatim>\<open>str(datetime.datetime.now())\<close> and the task that
  \<^verbatim>\<open>model_obj.train(**args)\<close> returns come from outside the module: the first two are
  arguments, the third is the state \<open>train args\<close> of a new task object (a call of
  \<^verbatim>\<open>train\<close> that raises never reaches the registry and is left out). The handler
  has no \<^verbatim>\<open>await\<close>: the task is stored as \<^verbatim>\<open>train\<close> returned it, and the response
  is built from that state.
\<close>

definition post :: "('a \<Rightarrow> task_state) \<Rightarrow> string \<Rightarrow> string \<Rightarrow> 'a \<Rightarrow> state \<Rightarrow> (exn + json) \<times> state" where
  "post train uuid now args s =
     (let train_task = allocated s;
          s1 = s\<lparr>tasks := (tasks s)(train_task := train args), allocated := Suc train_task\<rparr>;
          s2 = s1\<lparr>trainings := setitem uuid \<lparr>date = now, task = train_task\<rparr> (trainings s1)\<rparr>
      in (case build_train_response uuid s2 of
            Inl e \<Rightarrow> (Inl e, s2)
          | Inr ret \<Rightarrow> (Inr (to_json ret), s2)))"

subsection \<open>delete\<close>

text \<open>
  Only \<^verbatim>\<open>asyncio.TimeoutError\<close> is caught around \<^verbatim>\<open>wait_for\<close>; anything else it
  raises leaves the handler, before the log line and the response.
\<close>

definition delete :: "reaction \<Rightarrow> string \<Rightarrow> state \<Rightarrow> (exn + json) \<times> state" where
  "delete r uuid s =
     (case map_of (trainings s) uuid of
        None \<Rightarrow> (Inl (Exn HTTPNotFound ''Not Found''), s)
      | Some training \<Rightarrow>
          (let t1 = snd (cancel (tasks s (task training)));
               w = wait_for r t1 5;
               s1 = s\<lparr>tasks := (tasks s)(task training := snd w)\<rparr>;
               s2 = s1\<lparr>log_info := log_info s1 @ [''Training '' @ uuid @ '' has been cancelled'']\<rparr>;
               answer = (case build_train_response uuid s2 of
                           Inl e \<Rightarrow> (Inl e, s2)
                         | Inr ret \<Rightarrow> (Inr (to_json ret), s2))
           in (case fst w of
                 Inl e \<Rightarrow> if cls e = TimeoutError then answer else (Inl e, s1)
               | Inr u \<Rightarrow> answer)))"

subsection \<open>index\<close>

primrec index_loop :: "string list \<Rightarrow> state \<Rightarrow> json list \<Rightarrow> exn + json list" where
  "index_loop [] s ret = Inr ret"
| "index_loop (uuid # rest) s ret =
     (case build_train_response uuid s of
        Inl e \<Rightarrow> Inl e
      | Inr aux \<Rightarrow> index_loop rest s (ret @ [to_json aux]))"

definition index :: "state \<Rightarrow> (exn + json) \<times> state" where
  "index s =
     (case index_loop (map fst (trainings s)) s [] of
        Inl e \<Rightarrow> (Inl e, s)
      | Inr ret \<Rightarrow> (Inr (JArray ret), s))"

subsection \<open>get\<close>

text \<open>\<^verbatim>\<open>if ret\<close> holds for a dictionary with at least one key.\<close>

definition get :: "string \<Rightarrow> state \<Rightarrow> (exn + json) \<times> state" where
  "get uuid s =
     (case build_train_response uuid s of
        Inl e \<Rightarrow> (Inl e, s)
      | Inr ret \<Rightarrow>
          (case ret of
             Some (p # ps) \<Rightarrow> (Inr (JObject (p # ps)), s)
           | _ \<Rightarrow> (Inl (Exn HTTPNotFound ''Not Found''), s)))"

subsection \<open>States used in examples\<close>

text \<open>A handler that holds one training, made on date \<open>d\<close>, whose task is in state \<open>t\<close>.\<close>

definition one_job :: "string \<Rightarrow> string \<Rightarrow> task_state \<Rightarrow> state" where
  "one_job u d t =
     \<lparr>trainings = [(u, \<lparr>date = d, task = 0\<rparr>)], tasks = (\<lambda>h. t), allocated = 1, log_info = []\<rparr>"

text \<open>A run of \<^verbatim>\<open>post\<close> requests, each with its uuid, its date and its arguments.\<close>

primrec submit_all :: "('a \<Rightarrow> task_state) \<Rightarrow> (string \<times> string \<times> 'a) list \<Rightarrow> state \<Rightarrow> state" where
  "submit_all train [] s = s"
| "submit_all train (x # xs) s =
     submit_all train xs (snd (post train (fst x) (fst (snd x)) (snd (snd x)) s))"

text \<open>
  No two records share a task object, and every task object of a record has been
  created: what the handlers keep of the store.
\<close>

definition wf_state :: "state \<Rightarrow> bool" where
  "wf_state s =
     (distinct (map fst (trainings s)) \<and>
      distinct (map (\<lambda>p. task (snd p)) (trainings s)) \<and>
      list_all (\<lambda>p. task (snd p) < allocated s) (trainings s))"

section \<open>Shared lemmas\<close>

subsection \<open>Dictionaries\<close>

lemma map_of_setitem: "map_of (setitem k v d) = (map_of d)(k \<mapsto> v)"
  by (induction d) (auto simp: fun_eq_iff)

lemma setitem_fresh: "k \<notin> fst ` set d \<Longrightarrow> setitem k v d = d @ [(k, v)]"
  by (induction d) auto

lemma keys_setitem:
  "map fst (setitem k v d) = (if k \<in> fst ` set d then map fst d else map fst d @ [k])"
  by (induction d) auto

lemma setitem_set: "set (setitem k v d) \<subseteq> insert (k, v) (set d)"
  by (induction d) auto

lemma distinct_keys_setitem: "distinct (map fst d) \<Longrightarrow> distinct (map fst (setitem k v d))"
  by (induction d) (auto simp: keys_setitem split: if_splits)

lemma distinct_vals_setitem:
  "distinct (map f d) \<Longrightarrow> f (k, v) \<notin> f ` set d \<Longrightarrow> distinct (map f (setitem k v d))"
proof (induction d)
  case Nil
  show ?case by simp
next
  case (Cons p ps)
  have "f p \<notin> f ` set (setitem k v ps)"
    using Cons.prems setitem_set [of k v ps] by auto
  with Cons show ?case by auto
qed

lemma key_lookup: "k \<in> set (map fst d) \<Longrightarrow> \<exists>v. map_of d k = Some v"
  by (induction d) auto

lemma distinct_map_eq:
  "distinct (map f d) \<Longrightarrow> p \<in> set d \<Longrightarrow> q \<in> set d \<Longrightarrow> f p = f q \<Longrightarrow> p = q"
  by (meson distinct_map inj_onD)

text \<open>The keys of a dictionary filled key by key: each key once, where it came first.\<close>

lemma first_seen_snoc:
  "rev (remdups (rev (xs @ [k]))) =
     (if k \<in> set xs then rev (remdups (rev xs)) else rev (remdups (rev xs)) @ [k])"
  by simp

lemma keys_filled:
  "foldl (\<lambda>ks k. if k \<in> set ks then ks else ks @ [k]) [] xs = rev (remdups (rev xs))"
proof (induction xs rule: rev_induct)
  case Nil
  show ?case by simp
next
  case (snoc k xs)
  have "foldl (\<lambda>ks k. if k \<in> set ks then ks else ks @ [k]) [] (xs @ [k]) =
      (if k \<in> set xs then rev (remdups (rev xs)) else rev (remdups (rev xs)) @ [k])"
    by (simp add: snoc.IH)
  then show ?case by (simp only: first_seen_snoc)
qed

lemma first_seen_distinct: "distinct xs \<Longrightarrow> rev (remdups (rev xs)) = xs"
  by (simp add: distinct_remdups_id)

subsection \<open>The snapshot, by the state of the task\<close>

lemma snapshot_cases:
  assumes "map_of (trainings s) u = Some tr"
  shows "build_train_response u s =
     (case tasks s (task tr) of
        Pending c \<Rightarrow> Inr (Some [(''date'', date tr), (''uuid'', u), (''status'', ''running'')])
      | Terminal Cancelled \<Rightarrow>
          Inr (Some [(''date'', date tr), (''uuid'', u), (''status'', ''cancelled'')])
      | Terminal Finished \<Rightarrow>
          Inr (Some [(''date'', date tr), (''uuid'', u), (''status'', ''done'')])
      | Terminal (Failed e) \<Rightarrow>
          (case truth e of
             Inl x \<Rightarrow> Inl x
           | Inr b \<Rightarrow>
               if b then
                 (case str e of
                    Inl x \<Rightarrow> Inl x
                  | Inr m \<Rightarrow> Inr (Some [(''date'', date tr), (''uuid'', u), (''status'', ''error''),
                                        (''message'', m)]))
               else Inr (Some [(''date'', date tr), (''uuid'', u), (''status'', ''done'')])))"
  using assms
  by (simp add: build_train_response_def Let_def
      split: task_state.splits outcome.splits sum.splits)

lemma build_miss: "map_of (trainings s) u = None \<Longrightarrow> build_train_response u s = Inr None"
  by (simp add: build_train_response_def)

lemma build_hit_nonempty:
  assumes "map_of (trainings s) u = Some tr" and "build_train_response u s = Inr r"
  shows "\<exists>p ps. r = Some (p # ps)"
  using assms(2) unfolding snapshot_cases [OF assms(1)]
  by (auto split: task_state.splits outcome.splits sum.splits if_splits)

lemma snapshot_uuid:
  assumes "map_of (trainings s) u = Some tr" and "build_train_response u s = Inr r"
  shows "\<exists>ret. r = Some ret \<and> map_of ret ''uuid'' = Some u \<and>
           map_of ret ''date'' = Some (date tr)"
  using assms(2) unfolding snapshot_cases [OF assms(1)]
  by (auto split: task_state.splits outcome.splits sum.splits if_splits)

text \<open>When a job of the registry has no snapshot: its task failed, and the truth test of
  the exception raised, or the exception is true and formatting it raised.\<close>

lemma build_raises_iff:
  assumes "map_of (trainings s) u = Some tr"
  shows "(build_train_response u s = Inl x) =
     (\<exists>e. tasks s (task tr) = Terminal (Failed e) \<and>
        (truth e = Inl x \<or> (truth e = Inr True \<and> str e = Inl x)))"
  unfolding snapshot_cases [OF assms]
  by (auto split: task_state.splits outcome.splits sum.splits)

subsection \<open>get and index\<close>

lemma get_hit:
  assumes "map_of (trainings s) u = Some tr"
  shows "get u s =
     (case build_train_response u s of
        Inl e \<Rightarrow> (Inl e, s)
      | Inr ret \<Rightarrow> (Inr (to_json ret), s))"
proof (cases "build_train_response u s")
  case (Inl e)
  then show ?thesis by (simp add: get_def)
next
  case (Inr r)
  from build_hit_nonempty [OF assms Inr] obtain p ps where "r = Some (p # ps)" by blast
  with Inr show ?thesis by (simp add: get_def)
qed

lemma get_state: "snd (get u s) = s"
  by (simp add: get_def split: sum.splits option.splits list.splits)

lemma index_loop_returns:
  "index_loop us s acc = Inr r \<Longrightarrow>
     r = acc @ map (\<lambda>u. to_json (projr (build_train_response u s))) us \<and>
     (\<forall>u\<in>set us. \<exists>x. build_train_response u s = Inr x)"
proof (induction us arbitrary: acc)
  case Nil
  then show ?case by simp
next
  case (Cons u us)
  show ?case
  proof (cases "build_train_response u s")
    case (Inl x)
    with Cons.prems show ?thesis by simp
  next
    case (Inr aux)
    with Cons.prems have "index_loop us s (acc @ [to_json aux]) = Inr r" by simp
    from Cons.IH [OF this] Inr show ?thesis by simp
  qed
qed

lemma index_loop_raises:
  "index_loop us s acc = Inl e \<Longrightarrow>
     \<exists>i<length us. build_train_response (us ! i) s = Inl e \<and>
        (\<forall>j<i. \<exists>x. build_train_response (us ! j) s = Inr x)"
proof (induction us arbitrary: acc)
  case Nil
  then show ?case by simp
next
  case (Cons u us)
  show ?case
  proof (cases "build_train_response u s")
    case (Inl x)
    with Cons.prems have "x = e" by simp
    with Inl show ?thesis by (intro exI [of _ 0]) simp
  next
    case (Inr aux)
    with Cons.prems have "index_loop us s (acc @ [to_json aux]) = Inl e" by simp
    from Cons.IH [OF this] obtain i where i: "i < length us"
      "build_train_response (us ! i) s = Inl e"
      "\<forall>j<i. \<exists>x. build_train_response (us ! j) s = Inr x" by blast
    have "\<forall>j<Suc i. \<exists>x. build_train_response ((u # us) ! j) s = Inr x"
    proof (intro allI impI)
      fix j assume "j < Suc i"
      then show "\<exists>x. build_train_response ((u # us) ! j) s = Inr x"
        using Inr i(3) by (cases j) auto
    qed
    with i(1,2) show ?thesis by (intro exI [of _ "Suc i"]) simp
  qed
qed

lemma index_loop_all_return:
  "(\<forall>u\<in>set us. \<exists>x. build_train_response u s = Inr x) \<Longrightarrow>
     index_loop us s acc = Inr (acc @ map (\<lambda>u. to_json (projr (build_train_response u s))) us)"
proof (induction us arbitrary: acc)
  case Nil
  show ?case by simp
next
  case (Cons u us)
  then obtain x where "build_train_response u s = Inr x" by auto
  with Cons show ?case by simp
qed

lemma index_state: "snd (index s) = s"
  by (simp add: index_def split: sum.splits)

lemma index_returns:
  assumes "fst (index s) = Inr j"
  shows "j = JArray (map (\<lambda>u. to_json (projr (build_train_response u s))) (map fst (trainings s))) \<and>
         (\<forall>u\<in>set (map fst (trainings s)). \<exists>x. build_train_response u s = Inr x)"
proof (cases "index_loop (map fst (trainings s)) s []")
  case (Inl e)
  with assms show ?thesis by (simp add: index_def)
next
  case (Inr r)
  from index_loop_returns [OF Inr] Inr assms show ?thesis by (simp add: index_def)
qed

lemma index_raises:
  assumes "fst (index s) = Inl e"
  shows "\<exists>i<length (trainings s). build_train_response (fst (trainings s ! i)) s = Inl e"
proof (cases "index_loop (map fst (trainings s)) s []")
  case (Inl x)
  with assms have "x = e" by (simp add: index_def)
  with index_loop_raises [OF Inl] show ?thesis by auto
next
  case (Inr r)
  with assms show ?thesis by (simp add: index_def)
qed

lemma index_all_return:
  assumes "\<forall>u\<in>set (map fst (trainings s)). \<exists>x. build_train_response u s = Inr x"
  shows "\<exists>j. fst (index s) = Inr j"
  using index_loop_all_return [OF assms, of "[]"] by (simp add: index_def)

lemma nth_key_hit: "i < length d \<Longrightarrow> \<exists>v. map_of d (fst (d ! i)) = Some v"
  by (rule key_lookup) simp

subsection \<open>post\<close>

lemma trainings_post:
  "trainings (snd (post train u now args s)) =
     setitem u \<lparr>date = now, task = allocated s\<rparr> (trainings s)"
  by (simp add: post_def Let_def split: sum.splits)

lemma keys_submit_all:
  "map fst (trainings (submit_all train subs s)) =
     foldl (\<lambda>ks k. if k \<in> set ks then ks else ks @ [k]) (map fst (trainings s)) (map fst subs)"
proof (induction subs arbitrary: s)
  case Nil
  show ?case by simp
next
  case (Cons x xs)
  show ?case by (simp add: Cons.IH trainings_post keys_setitem)
qed

lemma keys_after_submissions:
  "map fst (trainings (submit_all train subs init)) = rev (remdups (rev (map fst subs)))"
  by (simp add: keys_submit_all keys_filled init_def)

subsection \<open>delete\<close>

lemma delete_miss:
  "map_of (trainings s) u = None \<Longrightarrow> delete r u s = (Inl (Exn HTTPNotFound ''Not Found''), s)"
  by (simp add: delete_def)

lemma delete_hit:
  assumes "map_of (trainings s) u = Some tr"
  shows "snd (delete r u s) =
     (let w = wait_for r (snd (cancel (tasks s (task tr)))) 5;
          s1 = s\<lparr>tasks := (tasks s)(task tr := snd w)\<rparr>
      in case fst w of
           Inl e \<Rightarrow> if cls e = TimeoutError
                     then s1\<lparr>log_info := log_info s @ [''Training '' @ u @ '' has been cancelled'']\<rparr>
                     else s1
         | Inr x \<Rightarrow> s1\<lparr>log_info := log_info s @ [''Training '' @ u @ '' has been cancelled'']\<rparr>)"
  using assms by (simp add: delete_def Let_def split: sum.splits)

lemma delete_trainings: "trainings (snd (delete r u s)) = trainings s"
  by (cases "map_of (trainings s) u")
     (simp_all add: delete_miss delete_hit Let_def split: sum.splits)

lemma delete_allocated: "allocated (snd (delete r u s)) = allocated s"
  by (cases "map_of (trainings s) u")
     (simp_all add: delete_miss delete_hit Let_def split: sum.splits)

lemma delete_tasks:
  "tasks (snd (delete r u s)) =
     (case map_of (trainings s) u of
        None \<Rightarrow> tasks s
      | Some tr \<Rightarrow> (tasks s)(task tr := snd (wait_for r (snd (cancel (tasks s (task tr)))) 5)))"
  by (cases "map_of (trainings s) u")
     (simp_all add: delete_miss delete_hit Let_def split: sum.splits)

text \<open>
  When \<^verbatim>\<open>wait_for\<close> returns or times out, \<^verbatim>\<open>delete\<close> logs and answers as
  \<^verbatim>\<open>get\<close> does after the wait.
\<close>

lemma delete_answers:
  assumes "map_of (trainings s) u = Some tr"
    and "fst (wait_for r (snd (cancel (tasks s (task tr)))) 5) = Inr x \<or>
         (\<exists>e. fst (wait_for r (snd (cancel (tasks s (task tr)))) 5) = Inl e \<and> cls e = TimeoutError)"
  shows "fst (delete r u s) = fst (get u (snd (delete r u s))) \<and>
         log_info (snd (delete r u s)) = log_info s @ [''Training '' @ u @ '' has been cancelled'']"
proof -
  let ?s2 = "s\<lparr>tasks := (tasks s)(task tr := snd (wait_for r (snd (cancel (tasks s (task tr)))) 5)),
               log_info := log_info s @ [''Training '' @ u @ '' has been cancelled'']\<rparr>"
  have st: "snd (delete r u s) = ?s2"
    using assms(2) by (auto simp: delete_hit [OF assms(1)] Let_def)
  have hit: "map_of (trainings ?s2) u = Some tr" using assms(1) by simp
  have d: "delete r u s =
      (case build_train_response u ?s2 of
         Inl e \<Rightarrow> (Inl e, ?s2)
       | Inr ret \<Rightarrow> (Inr (to_json ret), ?s2))"
    using assms by (auto simp: delete_def Let_def split: sum.splits)
  have "fst (delete r u s) = fst (get u ?s2)"
    unfolding d get_hit [OF hit] by (cases "build_train_response u ?s2") simp_all
  then show ?thesis by (simp add: st)
qed

subsection \<open>The store stays well formed\<close>

lemma wf_init: "wf_state init"
  by (simp add: wf_state_def init_def)

lemma wf_post:
  assumes "wf_state s"
  shows "wf_state (snd (post train u now args s))"
proof -
  let ?new = "\<lparr>date = now, task = allocated s\<rparr>"
  have a': "allocated (snd (post train u now args s)) = Suc (allocated s)"
    by (simp add: post_def Let_def split: sum.splits)
  have below: "\<forall>p\<in>set (trainings s). task (snd p) < allocated s"
    using assms by (simp add: wf_state_def list_all_iff)
  then have fresh: "(\<lambda>p. task (snd p)) (u, ?new) \<notin> (\<lambda>p. task (snd p)) ` set (trainings s)"
    by auto
  have "\<forall>p\<in>set (setitem u ?new (trainings s)). task (snd p) < Suc (allocated s)"
    using below setitem_set [of u ?new "trainings s"] by fastforce
  then show ?thesis
    using assms distinct_vals_setitem [OF _ fresh]
    by (simp add: wf_state_def trainings_post a' distinct_keys_setitem list_all_iff)
qed

lemma wf_delete: "wf_state s \<Longrightarrow> wf_state (snd (delete r u s))"
  by (simp add: wf_state_def delete_trainings delete_allocated)

text \<open>Cancelling one training does not change what is reported of another.\<close>

lemma delete_other_jobs:
  assumes "wf_state s" and "u' \<noteq> u"
  shows "build_train_response u' (snd (delete r u s)) = build_train_response u' s"
proof (cases "map_of (trainings s) u")
  case None
  then show ?thesis by (simp add: delete_miss)
next
  case (Some tr)
  show ?thesis
  proof (cases "map_of (trainings s) u'")
    case None
    then show ?thesis by (simp add: build_miss delete_trainings)
  next
    case other: (Some tr')
    have "(u, tr) \<in> set (trainings s)" "(u', tr') \<in> set (trainings s)"
      using Some other by (auto dest: map_of_SomeD)
    moreover have "distinct (map (\<lambda>p. task (snd p)) (trainings s))"
      using assms(1) by (simp add: wf_state_def)
    ultimately have "task tr' \<noteq> task tr"
      using assms(2) distinct_map_eq [of "\<lambda>p. task (snd p)" "trainings s" "(u, tr)" "(u', tr')"]
      by auto
    then have "tasks (snd (delete r u s)) (task tr') = tasks s (task tr')"
      by (simp add: delete_tasks Some)
    moreover have "map_of (trainings (snd (delete r u s))) u' = Some tr'"
      using other by (simp add: delete_trainings)
    ultimately show ?thesis
      using snapshot_cases [of "snd (delete r u s)" u' tr'] snapshot_cases [OF other] by simp
  qed
qed

section \<open>The claims\<close>

subsection \<open>Status derivation\<close>




subsection \<open>Cancelling\<close>

text \<open>
  Claim C2. \<^verbatim>\<open>delete\<close> is to answer with the snapshot taken after the cancellation
  for every job of the registry. It does not when the task honours the cancellation
  within the timeout: \<^verbatim>\<open>wait_for\<close> then raises \<^verbatim>\<open>CancelledError\<close>, which the
  \<^verbatim>\<open>except asyncio.TimeoutError\<close> clause does not catch, so the handler raises, with
  no log line and no snapshot.
\<close>

theorem delete_raises_when_cancellation_is_honoured:
  "fst (delete (Settles Cancelled) ''C1'' (one_job ''C1'' ''2019-03-01'' (Pending False))) =
     Inl (Exn CancelledError '''') \<and>
   log_info (snd (delete (Settles Cancelled) ''C1'' (one_job ''C1'' ''2019-03-01'' (Pending False)))) = []"
  by (simp add: delete_def one_job_def wait_for_def Let_def)

text \<open>
  Claim C3. A failure of the training is to stay inside the snapshot. \<^verbatim>\<open>delete\<close> on a
  job whose task has failed raises that very failure, whatever the reaction:
  \<^verbatim>\<open>wait_for\<close> hands over \<^verbatim>\<open>task.result()\<close>, which raises it.
\<close>

theorem delete_reraises_the_failure:
  "fst (delete r ''B1''
         (one_job ''B1'' ''2019-03-01'' (Terminal (Failed (Exn OtherError ''bad data''))))) =
     Inl (Exn OtherError ''bad data'')"
  by (simp add: delete_def one_job_def wait_for_def Let_def)

subsection \<open>Unknown jobs\<close>

text \<open>
  Claim C4. For a uuid that is not in the registry, \<^verbatim>\<open>get\<close> and \<^verbatim>\<open>delete\<close> both
  raise \<^verbatim>\<open>HTTPNotFound\<close>; neither yields a snapshot, and neither changes the state.
\<close>

theorem unknown_job_not_found:
  assumes "map_of (trainings s) u = None"
  shows "get u s = (Inl (Exn HTTPNotFound ''Not Found''), s) \<and>
         delete r u s = (Inl (Exn HTTPNotFound ''Not Found''), s)"
  using assms by (simp add: get_def delete_def build_miss)

theorem unknown_job_not_found_witness:
  "get ''nonexistent'' init = (Inl (Exn HTTPNotFound ''Not Found''), init) \<and>
   delete (Expires None) ''nonexistent'' init = (Inl (Exn HTTPNotFound ''Not Found''), init)"
  using unknown_job_not_found [of init "''nonexistent''" "Expires None"]
  by (simp add: init_def)

subsection \<open>Listing\<close>

text \<open>
  Claim C5, as stated, has \<^verbatim>\<open>index\<close> answer with N snapshots after N submissions.
  Two submissions under one uuid leave one record, hence one snapshot; and
  \<^verbatim>\<open>index\<close> raises, with no snapshot at all, when the registry holds a failed job
  whose failure cannot be formatted.
\<close>

theorem list_counterexample:
  "index (submit_all (\<lambda>a. Pending False) [(''A1'', ''d1'', ()), (''A1'', ''d2'', ())] init) =
     (Inr (JArray [JObject [(''date'', ''d2''), (''uuid'', ''A1''), (''status'', ''running'')]]),
      submit_all (\<lambda>a. Pending False) [(''A1'', ''d1'', ()), (''A1'', ''d2'', ())] init) \<and>
   trainings (one_job ''B1'' ''d1''
      (Terminal (Failed (Custom OtherError (Inr True) (Inl (Exn OtherError ''no text'')))))) =
     trainings (submit_all (\<lambda>a. Pending False) [(''B1'', ''d1'', ())] init) \<and>
   fst (index (one_job ''B1'' ''d1''
      (Terminal (Failed (Custom OtherError (Inr True) (Inl (Exn OtherError ''no text''))))))) =
     Inl (Exn OtherError ''no text'')"
  by (simp add: index_def post_def build_train_response_def init_def one_job_def Let_def)

text \<open>
  Claim C5, amended. After N submissions, at any later moment, the registry holds one
  record per uuid drawn, in the order in which the uuids first came: N records in the
  order of submission when the N uuids are pairwise distinct. When \<^verbatim>\<open>index\<close>
  returns, it returns one snapshot per record, in that order, the i-th being what
  \<^verbatim>\<open>get\<close> answers for the i-th uuid in the same state and carrying that uuid. When
  \<^verbatim>\<open>index\<close> raises, \<^verbatim>\<open>get\<close> raises the same for one of the uuids; it returns
  whenever \<^verbatim>\<open>get\<close> returns for all of them. \<^verbatim>\<open>index\<close> changes nothing, so
  calling it again gives the same result.
\<close>

theorem list_matches_status:
  assumes "trainings s = trainings (submit_all train subs init)"
  shows "map fst (trainings s) = rev (remdups (rev (map fst subs))) \<and>
     (distinct (map fst subs) \<longrightarrow>
        map fst (trainings s) = map fst subs \<and> length (trainings s) = length subs) \<and>
     (\<forall>j. fst (index s) = Inr j \<longrightarrow>
        (\<exists>snaps. j = JArray snaps \<and> length snaps = length (trainings s) \<and>
           (\<forall>i<length snaps. get (fst (trainings s ! i)) s = (Inr (snaps ! i), s) \<and>
              (\<exists>ret. snaps ! i = JObject ret \<and>
                 map_of ret ''uuid'' = Some (fst (trainings s ! i)))))) \<and>
     (\<forall>e. fst (index s) = Inl e \<longrightarrow>
        (\<exists>i<length (trainings s). get (fst (trainings s ! i)) s = (Inl e, s))) \<and>
     ((\<forall>i<length (trainings s). \<exists>x. get (fst (trainings s ! i)) s = (Inr x, s)) \<longrightarrow>
        (\<exists>j. fst (index s) = Inr j)) \<and>
     snd (index s) = s \<and> index (snd (index s)) = index s"
proof (intro conjI allI impI)
  show keys: "map fst (trainings s) = rev (remdups (rev (map fst subs)))"
    by (simp add: assms keys_after_submissions)
  show "map fst (trainings s) = map fst subs" if "distinct (map fst subs)"
    using that by (simp add: keys first_seen_distinct)
  show "length (trainings s) = length subs" if "distinct (map fst subs)"
  proof -
    have "map fst (trainings s) = map fst subs"
      using that by (simp add: keys first_seen_distinct)
    from arg_cong [OF this, of length] show ?thesis by simp
  qed
  show "snd (index s) = s" by (rule index_state)
  show "index (snd (index s)) = index s" by (simp add: index_state)
next
  fix j
  assume ret: "fst (index s) = Inr j"
  let ?snap = "\<lambda>u. to_json (projr (build_train_response u s))"
  let ?snaps = "map ?snap (map fst (trainings s))"
  from index_returns [OF ret]
  have j: "j = JArray ?snaps"
    and all: "\<forall>u\<in>set (map fst (trainings s)). \<exists>x. build_train_response u s = Inr x"
    by blast+
  have each: "get (fst (trainings s ! i)) s = (Inr (?snaps ! i), s) \<and>
      (\<exists>ret. ?snaps ! i = JObject ret \<and> map_of ret ''uuid'' = Some (fst (trainings s ! i)))"
    if "i < length ?snaps" for i
  proof -
    from that have i: "i < length (trainings s)" by simp
    from nth_key_hit [OF i] obtain tr
      where hit: "map_of (trainings s) (fst (trainings s ! i)) = Some tr" by blast
    have "fst (trainings s ! i) \<in> set (map fst (trainings s))" using i by simp
    with all obtain x where x: "build_train_response (fst (trainings s ! i)) s = Inr x"
      by blast
    from snapshot_uuid [OF hit x] obtain ret
      where "x = Some ret" "map_of ret ''uuid'' = Some (fst (trainings s ! i))" by blast
    with x i show ?thesis by (simp add: get_hit [OF hit])
  qed
  show "\<exists>snaps. j = JArray snaps \<and> length snaps = length (trainings s) \<and>
           (\<forall>i<length snaps. get (fst (trainings s ! i)) s = (Inr (snaps ! i), s) \<and>
              (\<exists>ret. snaps ! i = JObject ret \<and>
                 map_of ret ''uuid'' = Some (fst (trainings s ! i))))"
  proof (intro exI [of _ ?snaps] conjI allI impI)
    show "j = JArray ?snaps" by (rule j)
    show "length ?snaps = length (trainings s)" by simp
  next
    fix i assume "i < length ?snaps"
    from each [OF this]
    show "get (fst (trainings s ! i)) s = (Inr (?snaps ! i), s)"
      and "\<exists>ret. ?snaps ! i = JObject ret \<and> map_of ret ''uuid'' = Some (fst (trainings s ! i))"
      by blast+
  qed
next
  fix e
  assume "fst (index s) = Inl e"
  from index_raises [OF this] obtain i where i: "i < length (trainings s)"
    and b: "build_train_response (fst (trainings s ! i)) s = Inl e" by blast
  from nth_key_hit [OF i] obtain tr
    where hit: "map_of (trainings s) (fst (trainings s ! i)) = Some tr" by blast
  have "get (fst (trainings s ! i)) s = (Inl e, s)"
    using b by (simp add: get_hit [OF hit])
  with i show "\<exists>i<length (trainings s). get (fst (trainings s ! i)) s = (Inl e, s)" by blast
next
  assume ok: "\<forall>i<length (trainings s). \<exists>x. get (fst (trainings s ! i)) s = (Inr x, s)"
  have "\<forall>u\<in>set (map fst (trainings s)). \<exists>x. build_train_response u s = Inr x"
  proof
    fix u assume "u \<in> set (map fst (trainings s))"
    then obtain i where i: "i < length (trainings s)" and u: "u = fst (trainings s ! i)"
      by (auto simp: in_set_conv_nth)
    from ok i obtain x where "get (fst (trainings s ! i)) s = (Inr x, s)" by blast
    then show "\<exists>x. build_train_response u s = Inr x"
      unfolding u by (cases "build_train_response (fst (trainings s ! i)) s") (simp_all add: get_def)
  qed
  from index_all_return [OF this] show "\<exists>j. fst (index s) = Inr j" .
qed

theorem list_matches_status_witness:
  "index (submit_all (\<lambda>a. Pending False) [(''A1'', ''d1'', ()), (''B1'', ''d2'', ())] init) =
     (Inr (JArray [JObject [(''date'', ''d1''), (''uuid'', ''A1''), (''status'', ''running'')],
                   JObject [(''date'', ''d2''), (''uuid'', ''B1''), (''status'', ''running'')]]),
      submit_all (\<lambda>a. Pending False) [(''A1'', ''d1'', ()), (''B1'', ''d2'', ())] init) \<and>
   map fst (trainings (submit_all (\<lambda>a. Pending False) [(''A1'', ''d1'', ()), (''B1'', ''d2'', ())] init)) =
     [''A1'', ''B1'']"
proof -
  let ?subs = "[(''A1'', ''d1'', ()), (''B1'', ''d2'', ())]"
  let ?s = "submit_all (\<lambda>a. Pending False) ?subs init"
  have ix: "index ?s =
     (Inr (JArray [JObject [(''date'', ''d1''), (''uuid'', ''A1''), (''status'', ''running'')],
                   JObject [(''date'', ''d2''), (''uuid'', ''B1''), (''status'', ''running'')]]), ?s)"
    by (simp add: index_def post_def build_train_response_def init_def Let_def)
  have d: "distinct (map fst ?subs)" by simp
  from list_matches_status [OF refl, of "\<lambda>a. Pending False" ?subs] d
  have "map fst (trainings ?s) = map fst ?subs" by blast
  with ix show ?thesis by simp
qed

subsection \<open>The fields of a snapshot\<close>

text \<open>
  Claim C6. Every snapshot built for a job in the registry has the keys \<^verbatim>\<open>uuid\<close> (the
  job's uuid) and \<^verbatim>\<open>date\<close> (the date stored at submission). It has the key
  \<^verbatim>\<open>message\<close> exactly when its status is error, which is exactly when the task
  failed with a failure that tests true; the message is then that failure, formatted.
\<close>

theorem snapshot_fields:
  assumes "map_of (trainings s) u = Some tr"
    and "build_train_response u s = Inr r"
  shows "\<exists>ret. r = Some ret \<and>
     map_of ret ''uuid'' = Some u \<and> map_of ret ''date'' = Some (date tr) \<and>
     (''message'' \<in> fst ` set ret) = (map_of ret ''status'' = Some ''error'') \<and>
     (map_of ret ''status'' = Some ''error'') =
        (\<exists>e. tasks s (task tr) = Terminal (Failed e) \<and> truth e = Inr True) \<and>
     (\<forall>m. (map_of ret ''message'' = Some m) =
        (\<exists>e. tasks s (task tr) = Terminal (Failed e) \<and> truth e = Inr True \<and> str e = Inr m))"
  using assms(2) unfolding snapshot_cases [OF assms(1)]
  by (cases "tasks s (task tr)") (auto split: outcome.splits sum.splits if_splits)

theorem snapshot_fields_witness:
  "\<exists>ret. build_train_response ''B1''
       (one_job ''B1'' ''2019-03-01'' (Terminal (Failed (Exn OtherError ''bad data'')))) =
         Inr (Some ret) \<and>
     map_of ret ''uuid'' = Some ''B1'' \<and> map_of ret ''date'' = Some ''2019-03-01'' \<and>
     ''message'' \<in> fst ` set ret \<and> map_of ret ''status'' = Some ''error'' \<and>
     map_of ret ''message'' = Some ''bad data''"
proof -
  let ?s = "one_job ''B1'' ''2019-03-01'' (Terminal (Failed (Exn OtherError ''bad data'')))"
  have hit: "map_of (trainings ?s) ''B1'' = Some \<lparr>date = ''2019-03-01'', task = 0\<rparr>"
    by (simp add: one_job_def)
  have b: "build_train_response ''B1'' ?s =
      Inr (Some [(''date'', ''2019-03-01''), (''uuid'', ''B1''), (''status'', ''error''),
                 (''message'', ''bad data'')])"
    by (simp add: build_train_response_def one_job_def)
  from snapshot_fields [OF hit b] show ?thesis using b by simp
qed

subsection \<open>What is reported of each outcome\<close>




subsection \<open>Submitting\<close>

text \<open>
  Claim C8, as stated, has \<^verbatim>\<open>post\<close> generate a new identifier and answer with it.
  The handler answers with the whole snapshot of the job, not with the bare uuid; and
  it stores the record under whatever uuid it drew, unchecked: under a uuid that is
  already a key, the earlier record is replaced.
\<close>

theorem post_result_counterexample:
  "fst (post (\<lambda>a. Pending False) ''A1'' ''2019-03-01'' () init) =
     Inr (JObject [(''date'', ''2019-03-01''), (''uuid'', ''A1''), (''status'', ''running'')]) \<and>
   fst (post (\<lambda>a. Pending False) ''A1'' ''2019-03-01'' () init) \<noteq> Inr (JString ''A1'') \<and>
   trainings (snd (post (\<lambda>a. Pending False) ''A1'' ''2019-03-02'' ()
                     (one_job ''A1'' ''2019-03-01'' (Terminal Finished)))) =
     [(''A1'', \<lparr>date = ''2019-03-02'', task = 1\<rparr>)]"
  by (simp add: post_def build_train_response_def init_def one_job_def Let_def)

text \<open>
  Claim C8, amended. \<^verbatim>\<open>post\<close> creates the task with \<^verbatim>\<open>train\<close> and stores it as
  \<^verbatim>\<open>train\<close> returned it, together with the date, under the uuid it drew, without
  checking the uuid against the registry: a new uuid is appended after all earlier
  records, a uuid that is already a key has its record replaced where it stands. Nothing
  else changes. Nothing is awaited: a task that \<^verbatim>\<open>train\<close> returned pending is stored
  pending and answered as running. The answer is what \<^verbatim>\<open>get\<close> answers for the uuid
  right after: when it is a result, the snapshot of the job, with the uuid and the date.
\<close>

theorem post_inserts_and_answers:
  "\<exists>s2. s2 = s\<lparr>tasks := (tasks s)(allocated s := train args),
                 allocated := Suc (allocated s),
                 trainings := setitem u \<lparr>date = now, task = allocated s\<rparr> (trainings s)\<rparr> \<and>
     post train u now args s = (fst (get u s2), s2) \<and>
     map_of (trainings s2) u = Some \<lparr>date = now, task = allocated s\<rparr> \<and>
     (u \<notin> fst ` set (trainings s) \<longrightarrow>
        trainings s2 = trainings s @ [(u, \<lparr>date = now, task = allocated s\<rparr>)]) \<and>
     (u \<in> fst ` set (trainings s) \<longrightarrow> map fst (trainings s2) = map fst (trainings s)) \<and>
     (\<forall>c. train args = Pending c \<longrightarrow>
        tasks s2 (allocated s) = Pending c \<and>
        fst (post train u now args s) =
          Inr (JObject [(''date'', now), (''uuid'', u), (''status'', ''running'')])) \<and>
     (\<forall>j. fst (post train u now args s) = Inr j \<longrightarrow>
        (\<exists>ret. j = JObject ret \<and> map_of ret ''uuid'' = Some u \<and> map_of ret ''date'' = Some now))"
proof -
  let ?new = "\<lparr>date = now, task = allocated s\<rparr>"
  let ?s2 = "s\<lparr>tasks := (tasks s)(allocated s := train args),
               allocated := Suc (allocated s),
               trainings := setitem u ?new (trainings s)\<rparr>"
  have hit: "map_of (trainings ?s2) u = Some ?new"
    by (simp add: map_of_setitem)
  have run: "post train u now args s =
      (case build_train_response u ?s2 of
         Inl e \<Rightarrow> (Inl e, ?s2)
       | Inr ret \<Rightarrow> (Inr (to_json ret), ?s2))"
    by (simp add: post_def Let_def cong: sum.case_cong)
  have answer: "post train u now args s = (fst (get u ?s2), ?s2)"
    unfolding run get_hit [OF hit] by (cases "build_train_response u ?s2") simp_all
  have fresh: "trainings ?s2 = trainings s @ [(u, ?new)]" if "u \<notin> fst ` set (trainings s)"
    using that by (simp add: setitem_fresh)
  have known: "map fst (trainings ?s2) = map fst (trainings s)" if "u \<in> fst ` set (trainings s)"
    using that by (simp add: keys_setitem)
  have pending: "tasks ?s2 (allocated s) = Pending c \<and>
        fst (post train u now args s) =
          Inr (JObject [(''date'', now), (''uuid'', u), (''status'', ''running'')])"
    if "train args = Pending c" for c
    using that snapshot_cases [OF hit] by (simp add: run)
  have fields: "\<exists>ret. j = JObject ret \<and> map_of ret ''uuid'' = Some u \<and> map_of ret ''date'' = Some now"
    if j: "fst (post train u now args s) = Inr j" for j
  proof (cases "build_train_response u ?s2")
    case (Inl e)
    with j show ?thesis by (simp add: run)
  next
    case (Inr r)
    from snapshot_uuid [OF hit Inr] obtain ret
      where "r = Some ret" "map_of ret ''uuid'' = Some u" "map_of ret ''date'' = Some now"
      by auto
    with j Inr show ?thesis by (auto simp: run)
  qed
  show ?thesis
    using answer hit fresh known pending fields by (intro exI [of _ ?s2]) blast
qed

theorem post_inserts_and_answers_witness:
  "post (\<lambda>a. Pending False) ''A1'' ''2019-03-01'' () init =
     (Inr (JObject [(''date'', ''2019-03-01''), (''uuid'', ''A1''), (''status'', ''running'')]),
      \<lparr>trainings = [(''A1'', \<lparr>date = ''2019-03-01'', task = 0\<rparr>)],
       tasks = (\<lambda>h. Pending False), allocated = 1, log_info = []\<rparr>)"
proof -
  from post_inserts_and_answers
    [where s = init and train = "\<lambda>a. Pending False" and args = "()" and u = "''A1''"
       and now = "''2019-03-01''"]
  obtain s2 where s2: "s2 = init\<lparr>tasks := (tasks init)(allocated init := Pending False),
                 allocated := Suc (allocated init),
                 trainings := setitem ''A1'' \<lparr>date = ''2019-03-01'', task = allocated init\<rparr>
                                (trainings init)\<rparr>"
    and run: "post (\<lambda>a. Pending False) ''A1'' ''2019-03-01'' () init = (fst (get ''A1'' s2), s2)"
    by blast
  have "s2 = \<lparr>trainings = [(''A1'', \<lparr>date = ''2019-03-01'', task = 0\<rparr>)],
       tasks = (\<lambda>h. Pending False), allocated = 1, log_info = []\<rparr>"
    by (simp add: s2 init_def fun_eq_iff)
  then show ?thesis
    by (simp add: run get_def build_train_response_def)
qed

subsection \<open>What the handlers leave alone\<close>



subsection \<open>When the snapshot is defined\<close>

text \<open>
  Claim C10, as stated, has \<^verbatim>\<open>build_train_response\<close> never raise. It raises on a
  failed job when formatting the failure raises, and when testing its truth value does.
\<close>

theorem unprintable_failure_counterexample:
  "build_train_response ''B1''
     (one_job ''B1'' ''2019-03-01''
        (Terminal (Failed (Custom OtherError (Inr True) (Inl (Exn OtherError ''no text'')))))) =
     Inl (Exn OtherError ''no text'') \<and>
   build_train_response ''B1''
     (one_job ''B1'' ''2019-03-01''
        (Terminal (Failed (Custom OtherError (Inl (Exn OtherError ''no truth value''))
                             (Inr ''bad data''))))) =
     Inl (Exn OtherError ''no truth value'')"
  by (simp add: build_train_response_def one_job_def)

text \<open>
  Claim C10, amended. \<^verbatim>\<open>exception()\<close> returns (rather than raises) exactly on a task
  that is done and not cancelled, which is where the handler asks it: after
  \<^verbatim>\<open>cancelled()\<close> was false and \<^verbatim>\<open>done()\<close> true. So no query of the task raises in
  \<^verbatim>\<open>build_train_response\<close>. For a uuid of the registry it either yields a snapshot
  or raises, and it raises exactly when the task failed and the truth test of the failure
  raises or, the failure testing true, formatting it raises; it then raises what that
  raised. A pending, a cancelled and a finished task always have their snapshot.
\<close>

theorem build_train_response_raises_only_on_failure:
  "(\<exists>x. exception t = Inr x) = (\<not> cancelled t \<and> done_t t) \<and>
   (map_of (trainings s) u = None \<longrightarrow> build_train_response u s = Inr None) \<and>
   (\<forall>tr. map_of (trainings s) u = Some tr \<longrightarrow>
      (\<forall>x. (build_train_response u s = Inl x) =
         (\<exists>e. tasks s (task tr) = Terminal (Failed e) \<and>
            (truth e = Inl x \<or> truth e = Inr True \<and> str e = Inl x))) \<and>
      ((\<exists>x. build_train_response u s = Inl x) \<or>
       (\<exists>ret. build_train_response u s = Inr (Some ret))))"
proof (intro conjI allI impI)
  show "(\<exists>x. exception t = Inr x) = (\<not> cancelled t \<and> done_t t)"
    by (cases t) (auto split: outcome.splits)
next
  assume "map_of (trainings s) u = None"
  then show "build_train_response u s = Inr None" by (rule build_miss)
next
  fix tr x
  assume "map_of (trainings s) u = Some tr"
  then show "(build_train_response u s = Inl x) =
         (\<exists>e. tasks s (task tr) = Terminal (Failed e) \<and>
            (truth e = Inl x \<or> truth e = Inr True \<and> str e = Inl x))"
    by (rule build_raises_iff)
next
  fix tr
  assume hit: "map_of (trainings s) u = Some tr"
  show "(\<exists>x. build_train_response u s = Inl x) \<or>
       (\<exists>ret. build_train_response u s = Inr (Some ret))"
  proof (cases "build_train_response u s")
    case (Inl x)
    then show ?thesis by simp
  next
    case (Inr r)
    from build_hit_nonempty [OF hit Inr] Inr show ?thesis by auto
  qed
qed

theorem build_train_response_raises_only_on_failure_witness:
  "(\<exists>ret. build_train_response ''C1'' (one_job ''C1'' ''2019-03-01'' (Terminal Cancelled)) =
      Inr (Some ret)) \<and>
   \<not> (\<exists>x. exception (Terminal Cancelled) = Inr x)"
proof -
  let ?s = "one_job ''C1'' ''2019-03-01'' (Terminal Cancelled)"
  have hit: "map_of (trainings ?s) ''C1'' = Some \<lparr>date = ''2019-03-01'', task = 0\<rparr>"
    by (simp add: one_job_def)
  have t: "tasks ?s (task \<lparr>date = ''2019-03-01'', task = 0\<rparr>) = Terminal Cancelled"
    by (simp add: one_job_def)
  from build_train_response_raises_only_on_failure [of "Terminal Cancelled" ?s "''C1''"] hit t
  show ?thesis by auto
qed

end
